theory Spec2Isabelle
  imports Complex_Main "HOL-Library.Word"
begin

unbundle bit_operations_syntax

section \<open>Machine types\<close>

text \<open>
  The packetizer is C for a microcontroller.  Its integers are fixed-width:
  \<open>uint8_t\<close>, \<open>uint16_t\<close> and the signed return codes \<open>int8_t\<close> and \<open>int16_t\<close>
  are words (\<open>- 1\<close> is the all-ones word, read back as \<open>-1\<close> by \<open>sint\<close>).
  Operands of \<open>+\<close>, \<open>*\<close>, \<open>/\<close> and of the comparisons are promoted to \<open>int\<close> by C
  before the operation; the model reads them with \<open>unat\<close> and computes on \<open>nat\<close>,
  and writes every narrowing conversion of the source out as \<open>of_nat\<close> or \<open>ucast\<close>
  (none of the promoted values comes near the range of a 32-bit \<open>int\<close>).

  The enumeration \<open>DataType\<close> has the members 1, 2 and 3; a C enumeration is an
  integer type, and the functions below take any value of it, so it is a word too (the
  32 bits of \<open>unsigned int\<close>).  A \<open>float\<close> and a \<open>double\<close> are represented by their
  IEEE-754 bit patterns, a 32-bit and a 64-bit word: the code never computes with them,
  it only copies their bytes.
\<close>

type_synonym uint8_t = "8 word"
type_synonym uint16_t = "16 word"
type_synonym int8_t = "8 word"
type_synonym int16_t = "16 word"
type_synonym DataType = "32 word"
type_synonym float32 = "32 word"
type_synonym float64 = "64 word"

definition DATA_TYPE_INT :: DataType where
  "DATA_TYPE_INT = 1"

definition DATA_TYPE_FLOAT :: DataType where
  "DATA_TYPE_FLOAT = 2"

definition DATA_TYPE_DOUBLE :: DataType where
  "DATA_TYPE_DOUBLE = 3"

section \<open>The sensor packet\<close>

text \<open>
  \<open>struct SensorPacket\<close> of \<open>mcu_packetizer.h\<close>.  The field \<open>payload\<close> is the array
  \<open>uint8_t payload[255 * 8]\<close>; a list stands for it, and \<open>payload_array\<close> says that the
  list has the 2040 cells of the array.
\<close>

record SensorPacket =
  slave_address :: uint8_t
  data_type :: uint8_t
  variable_count :: uint8_t
  payload :: "uint8_t list"
  payload_length :: uint16_t

definition payload_array :: "SensorPacket \<Rightarrow> bool" where
  "payload_array p \<longleftrightarrow> length (payload p) = 255 * 8"

section \<open>Type sizes\<close>

text \<open>\<open>get_type_size\<close>: the \<open>switch\<close> with its \<open>default\<close> branch.\<close>

definition get_type_size :: "DataType \<Rightarrow> uint8_t" where
  "get_type_size type =
     (if type = DATA_TYPE_INT then 1
      else if type = DATA_TYPE_FLOAT then 4
      else if type = DATA_TYPE_DOUBLE then 8
      else 0)"

section \<open>Building a packet\<close>

text \<open>
  A pointer argument is an \<open>option\<close>: \<open>None\<close> is \<open>NULL\<close>, \<open>Some p\<close> points to the
  structure \<open>p\<close>.  Every function returns its return code together with the structure as
  the call leaves it.

  \<open>packet_init\<close> keeps the source's test \<open>var_count > 255\<close>, which no \<open>uint8_t\<close>
  satisfies.  The assignment to the \<open>uint8_t\<close> field \<open>data_type\<close> narrows the
  enumeration value.  The payload array is not touched.
\<close>

definition packet_init ::
  "SensorPacket option \<Rightarrow> uint8_t \<Rightarrow> DataType \<Rightarrow> uint8_t \<Rightarrow> int8_t \<times> SensorPacket option"
where
  "packet_init packet slave_addr type var_count =
     (case packet of
        None \<Rightarrow> (- 1, None)
      | Some p \<Rightarrow>
          if var_count = 0 \<or> unat var_count > 255 then (- 1, Some p)
          else (0, Some (p\<lparr>slave_address := slave_addr,
                             data_type := ucast type,
                             variable_count := var_count,
                             payload_length := 0\<rparr>)))"

text \<open>
  \<open>packet_add_int\<close>.  \<open>current_count\<close> is a \<open>uint8_t\<close>: the quotient is narrowed
  to 8 bits.  The comparison of the \<open>uint8_t\<close> field with the enumeration constant
  is made on the promoted values.
\<close>

definition packet_add_int ::
  "SensorPacket option \<Rightarrow> uint8_t \<Rightarrow> int8_t \<times> SensorPacket option"
where
  "packet_add_int packet v =
     (case packet of
        None \<Rightarrow> (- 1, None)
      | Some p \<Rightarrow>
          if unat (data_type p) \<noteq> unat DATA_TYPE_INT then (- 1, Some p)
          else
            let current_count =
                  (of_nat (unat (payload_length p) div unat (get_type_size DATA_TYPE_INT)) :: uint8_t)
            in if current_count \<ge> variable_count p then (- 1, Some p)
               else if unat (payload_length p) + 1 > 255 * unat (get_type_size DATA_TYPE_INT)
                    then (- 1, Some p)
               else (0, Some (p\<lparr>payload := (payload p)[unat (payload_length p) := v],
                                  payload_length := payload_length p + 1\<rparr>)))"

text \<open>
  The union \<open>DataValue\<close> overlays a \<open>float\<close> or a \<open>double\<close> with the array
  \<open>bytes[8]\<close>.  The source's comments name the byte order it is written for
  (``little-endian''): on such a target \<open>bytes[i]\<close> holds bits \<open>8 i\<close> to \<open>8 i + 7\<close> of
  the stored value.  After \<open>dv.f32 = value\<close> only the first four bytes are defined, and
  only they are read.
\<close>

definition DataValue_f32 :: "float32 \<Rightarrow> uint8_t list" where
  "DataValue_f32 v = map (\<lambda>i. ucast (drop_bit (8 * i) v)) [0..<4]"

definition DataValue_f64 :: "float64 \<Rightarrow> uint8_t list" where
  "DataValue_f64 v = map (\<lambda>i. ucast (drop_bit (8 * i) v)) [0..<8]"

text \<open>
  The loop \<open>for (uint8_t i = 0; i < type_size; i++)
  packet->payload[packet->payload_length++] = dv.bytes[i]\<close>, started at \<open>i\<close>.
\<close>

function copy_bytes :: "uint8_t list \<Rightarrow> uint8_t \<Rightarrow> uint8_t \<Rightarrow> SensorPacket \<Rightarrow> SensorPacket" where
  "copy_bytes bytes type_size i p =
     (if i < type_size
      then copy_bytes bytes type_size (i + 1)
             (p\<lparr>payload := (payload p)[unat (payload_length p) := bytes ! unat i],
                payload_length := payload_length p + 1\<rparr>)
      else p)"
  by pat_completeness auto

termination copy_bytes
proof (relation "measure (\<lambda>(bytes, type_size, i, p). unat type_size - unat i)")
  show "wf (measure (\<lambda>(bytes, type_size, i, p). unat type_size - unat i))" by simp
next
  fix bytes :: "uint8_t list" and type_size i :: uint8_t and p :: SensorPacket
  assume "i < type_size"
  then have lt: "unat i < unat type_size" by (simp add: word_less_nat_alt)
  moreover have "unat type_size < 2 ^ LENGTH(8)" by (rule unsigned_less)
  ultimately have "unat i + 1 < 256" by simp
  then have "unat (i + 1) = Suc (unat i)" by (simp add: unat_word_ariths)
  with lt
  show "((bytes, type_size, i + 1,
          p\<lparr>payload := (payload p)[unat (payload_length p) := bytes ! unat i],
            payload_length := payload_length p + 1\<rparr>),
         (bytes, type_size, i, p))
        \<in> measure (\<lambda>(bytes, type_size, i, p). unat type_size - unat i)"
    by simp
qed

declare copy_bytes.simps [simp del]

definition packet_add_float ::
  "SensorPacket option \<Rightarrow> float32 \<Rightarrow> int8_t \<times> SensorPacket option"
where
  "packet_add_float packet v =
     (case packet of
        None \<Rightarrow> (- 1, None)
      | Some p \<Rightarrow>
          if unat (data_type p) \<noteq> unat DATA_TYPE_FLOAT then (- 1, Some p)
          else
            let type_size = get_type_size DATA_TYPE_FLOAT;
                current_count = (of_nat (unat (payload_length p) div unat type_size) :: uint8_t)
            in if current_count \<ge> variable_count p then (- 1, Some p)
               else if unat (payload_length p) + unat type_size > 255 * unat type_size
                    then (- 1, Some p)
               else (0, Some (copy_bytes (DataValue_f32 v) type_size 0 p)))"

definition packet_add_double ::
  "SensorPacket option \<Rightarrow> float64 \<Rightarrow> int8_t \<times> SensorPacket option"
where
  "packet_add_double packet v =
     (case packet of
        None \<Rightarrow> (- 1, None)
      | Some p \<Rightarrow>
          if unat (data_type p) \<noteq> unat DATA_TYPE_DOUBLE then (- 1, Some p)
          else
            let type_size = get_type_size DATA_TYPE_DOUBLE;
                current_count = (of_nat (unat (payload_length p) div unat type_size) :: uint8_t)
            in if current_count \<ge> variable_count p then (- 1, Some p)
               else if unat (payload_length p) + unat type_size > 255 * unat type_size
                    then (- 1, Some p)
               else (0, Some (copy_bytes (DataValue_f64 v) type_size 0 p)))"

section \<open>Serialising\<close>

text \<open>
  The output buffer is a list of bytes.  \<open>memcpy (&buffer[off], src, n)\<close> and the
  three header assignments are written for a buffer that has room for the bytes; C
  leaves a shorter buffer undefined, and the theorems below give the buffer its room.
\<close>

definition memcpy_at :: "uint8_t list \<Rightarrow> nat \<Rightarrow> uint8_t list \<Rightarrow> nat \<Rightarrow> uint8_t list" where
  "memcpy_at buffer off src n = take off buffer @ take n src @ drop (off + n) buffer"

text \<open>
  \<open>packet_serialize\<close>.  \<open>expected_payload_size\<close> is declared \<open>uint8_t\<close>: the product
  of the promoted operands is narrowed to 8 bits, which is the product of the two bytes
  as 8-bit words.  The comparison with the 16-bit \<open>payload_length\<close> is made on the
  promoted values.  The result \<open>3 + payload_length\<close> is narrowed to \<open>int16_t\<close>.
\<close>

definition packet_serialize ::
  "SensorPacket option \<Rightarrow> uint8_t list option \<Rightarrow> int16_t \<times> uint8_t list option"
where
  "packet_serialize packet buffer =
     (case (packet, buffer) of
        (Some p, Some b) \<Rightarrow>
          let expected_payload_size =
                (variable_count p * get_type_size (ucast (data_type p)) :: uint8_t)
          in if unat (payload_length p) \<noteq> unat expected_payload_size then (- 1, Some b)
             else
               let b0 = b[0 := slave_address p];
                   b1 = b0[1 := data_type p];
                   b2 = b1[2 := variable_count p];
                   b3 = memcpy_at b2 3 (payload p) (unat (payload_length p))
               in (of_nat (3 + unat (payload_length p)), Some b3)
      | _ \<Rightarrow> (- 1, buffer))"

section \<open>Callers\<close>

text \<open>
  The three append functions under one name, and a caller that appends a list of values
  one after the other, as \<open>main\<close> of \<open>example_mcu_usage.cpp\<close> does, collecting the
  return codes.
\<close>

datatype append_op = AddInt uint8_t | AddFloat float32 | AddDouble float64

fun append :: "SensorPacket option \<Rightarrow> append_op \<Rightarrow> int8_t \<times> SensorPacket option" where
  "append packet (AddInt v) = packet_add_int packet v"
| "append packet (AddFloat v) = packet_add_float packet v"
| "append packet (AddDouble v) = packet_add_double packet v"

fun append_all ::
  "SensorPacket option \<Rightarrow> append_op list \<Rightarrow> int8_t list \<times> SensorPacket option"
where
  "append_all packet [] = ([], packet)"
| "append_all packet (x # xs) =
     (case append packet x of
        (r, packet') \<Rightarrow> (case append_all packet' xs of (rs, packet'') \<Rightarrow> (r # rs, packet'')))"

text \<open>The type code an append function asks for, and the bytes it writes for a value.\<close>

fun op_type :: "append_op \<Rightarrow> DataType" where
  "op_type (AddInt v) = DATA_TYPE_INT"
| "op_type (AddFloat v) = DATA_TYPE_FLOAT"
| "op_type (AddDouble v) = DATA_TYPE_DOUBLE"

fun op_bytes :: "append_op \<Rightarrow> uint8_t list" where
  "op_bytes (AddInt v) = [v]"
| "op_bytes (AddFloat v) = DataValue_f32 v"
| "op_bytes (AddDouble v) = DataValue_f64 v"

text \<open>The bit pattern an append call is given, as a number.\<close>

fun op_value :: "append_op \<Rightarrow> nat" where
  "op_value (AddInt v) = unat v"
| "op_value (AddFloat v) = unat v"
| "op_value (AddDouble v) = unat v"

text \<open>
  The builders a caller can hold: what a successful \<open>packet_init\<close> leaves in a
  structure, and what any append call, successful or not, leaves of such a builder.
\<close>

inductive reachable :: "SensorPacket \<Rightarrow> bool" where
  init: "payload_array p0 \<Longrightarrow> packet_init (Some p0) slave_addr type var_count = (0, Some p)
           \<Longrightarrow> reachable p"
| step: "reachable p \<Longrightarrow> append (Some p) x = (r, Some p') \<Longrightarrow> reachable p'"

text \<open>A structure and an output buffer to run the functions on: all bytes zero.\<close>

definition zero_packet :: SensorPacket where
  "zero_packet = \<lparr>slave_address = 0, data_type = 0, variable_count = 0,
                    payload = replicate (255 * 8) 0, payload_length = 0\<rparr>"

definition zero_buffer :: "uint8_t list" where
  "zero_buffer = replicate (3 + 255 * 8) 0"

section \<open>Observations of the specification\<close>

text \<open>
  The specification speaks of a builder's \<open>payload_bytes\<close>, the bytes appended so far,
  of the \<open>width\<close> of its type and of \<open>filled_elements\<close>, ``derived as
  \<open>len(payload_bytes) / width(data_type)\<close>''.  On a \<open>SensorPacket\<close> these are:
\<close>

definition payload_bytes :: "SensorPacket \<Rightarrow> uint8_t list" where
  "payload_bytes p = take (unat (payload_length p)) (payload p)"

definition width :: "SensorPacket \<Rightarrow> nat" where
  "width p = unat (get_type_size (ucast (data_type p)))"

definition filled_elements :: "SensorPacket \<Rightarrow> nat" where
  "filled_elements p = unat (payload_length p) div width p"

section \<open>IEEE-754 bit patterns\<close>

text \<open>
  Modelled from the spec: the C source only moves the bytes of a \<open>float\<close> or a
  \<open>double\<close>; the specification names their formats, ``IEEE-754 single precision'' and
  ``IEEE-754 double precision''.  \<open>ieee_value\<close> is the number such a bit pattern stands
  for: sign bit, biased exponent and fraction (subnormal when the exponent field is 0);
  \<open>None\<close> for the infinities and NaNs.
\<close>

definition ieee_value :: "nat \<Rightarrow> nat \<Rightarrow> nat \<Rightarrow> real option" where
  "ieee_value ebits fbits n =
     (let s = n div 2 ^ (ebits + fbits);
          e = (n div 2 ^ fbits) mod 2 ^ ebits;
          f = n mod 2 ^ fbits;
          bias = 2 ^ (ebits - 1) - 1;
          sign = (if s = 1 then - 1 else 1 :: real)
      in if e = 2 ^ ebits - 1 then None
         else if e = 0 then Some (sign * (real f / 2 ^ fbits) / 2 ^ (bias - 1))
         else if e \<ge> bias then Some (sign * (1 + real f / 2 ^ fbits) * 2 ^ (e - bias))
         else Some (sign * (1 + real f / 2 ^ fbits) / 2 ^ (bias - e)))"

definition float32_value :: "float32 \<Rightarrow> real option" where
  "float32_value v = ieee_value 8 23 (unat v)"

definition float64_value :: "float64 \<Rightarrow> real option" where
  "float64_value v = ieee_value 11 52 (unat v)"

section \<open>The decoder\<close>

text \<open>
  Modelled from the spec: the decoder (\<open>depacketize\<close> of \<open>pc_depacketizer.py\<close>) is not
  among the sources; the definitions of this section follow sections 3, 4.4 and 7 of the
  specification.  A decoded packet has a slave address, a type of the closed set, a count
  and the decoded values; a decoded element is an unsigned byte, or the bit pattern of a
  single or a double.
\<close>

datatype DataKind = INT8 | FLOAT32 | FLOAT64

datatype decoded_value = Int8Value uint8_t | Float32Value float32 | Float64Value float64

datatype decode_error = InsufficientHeader | UnknownType | TruncatedOrOversizedPayload

record DecodedPacket =
  dec_slave_address :: uint8_t
  dec_data_type :: DataKind
  dec_variable_count :: uint8_t
  dec_values :: "decoded_value list"

text \<open>
  Modelled from the spec: step 3 of section 4.4, ``resolve \<open>width(data_type_code)\<close> via
  the Type Registry; reject if the code is unrecognized'', with the codes and widths of
  section 6 (1 = INT8, 2 = FLOAT32, 3 = FLOAT64; 1, 4 and 8 bytes).
\<close>

definition resolve_type :: "uint8_t \<Rightarrow> DataKind option" where
  "resolve_type code =
     (if code = 1 then Some INT8 else if code = 2 then Some FLOAT32
      else if code = 3 then Some FLOAT64 else None)"

fun kind_width :: "DataKind \<Rightarrow> nat" where
  "kind_width INT8 = 1"
| "kind_width FLOAT32 = 4"
| "kind_width FLOAT64 = 8"

text \<open>
  Modelled from the spec: step 5 of section 4.4, ``decode each chunk per
  \<open>data_type_code\<close>: a single byte as an unsigned 8-bit integer, 4 bytes as a
  little-endian IEEE-754 single, 8 bytes as a little-endian IEEE-754 double''.  \<open>le_word\<close>
  reads bytes least significant first.
\<close>

fun le_word :: "uint8_t list \<Rightarrow> 'a::len word" where
  "le_word [] = 0"
| "le_word (b # bs) = ucast b OR push_bit 8 (le_word bs)"

fun decode_chunk :: "DataKind \<Rightarrow> uint8_t list \<Rightarrow> decoded_value" where
  "decode_chunk INT8 chunk = Int8Value (le_word chunk)"
| "decode_chunk FLOAT32 chunk = Float32Value (le_word chunk)"
| "decode_chunk FLOAT64 chunk = Float64Value (le_word chunk)"

text \<open>
  Modelled from the spec: step 5 of section 4.4, ``partition the remaining bytes into
  \<open>variable_count\<close> consecutive chunks of \<open>width\<close> bytes each''.
\<close>

definition chunks :: "nat \<Rightarrow> nat \<Rightarrow> 'a list \<Rightarrow> 'a list list" where
  "chunks count w xs = map (\<lambda>i. take w (drop (i * w) xs)) [0..<count]"

text \<open>
  Modelled from the spec: \<open>decode\<close>, steps 1 to 6 of section 4.4 in their order: the
  header of three bytes, the type lookup, the exact length test, the chunks.
\<close>

definition decode :: "uint8_t list \<Rightarrow> decode_error + DecodedPacket" where
  "decode bytes =
     (if length bytes < 3 then Inl InsufficientHeader
      else
        let slave = bytes ! 0; code = bytes ! 1; count = bytes ! 2
        in case resolve_type code of
             None \<Rightarrow> Inl UnknownType
           | Some kind \<Rightarrow>
               let expected_payload_len = unat count * kind_width kind
               in if length bytes - 3 \<noteq> expected_payload_len
                  then Inl TruncatedOrOversizedPayload
                  else Inr \<lparr>dec_slave_address = slave, dec_data_type = kind,
                            dec_variable_count = count,
                            dec_values = map (decode_chunk kind)
                                           (chunks (unat count) (kind_width kind) (drop 3 bytes))\<rparr>)"

text \<open>The decoded element that stands for the value given to an append call.\<close>

fun op_decoded :: "append_op \<Rightarrow> decoded_value" where
  "op_decoded (AddInt v) = Int8Value v"
| "op_decoded (AddFloat v) = Float32Value v"
| "op_decoded (AddDouble v) = Float64Value v"

section \<open>The copying loop\<close>

lemma copy_bytes_fields:
  "slave_address (copy_bytes bytes ts i p) = slave_address p
   \<and> data_type (copy_bytes bytes ts i p) = data_type p
   \<and> variable_count (copy_bytes bytes ts i p) = variable_count p
   \<and> length (payload (copy_bytes bytes ts i p)) = length (payload p)"
proof (induction bytes ts i p rule: copy_bytes.induct)
  case (1 bytes type_size i p)
  show ?case
  proof (cases "i < type_size")
    case True
    with 1 show ?thesis by (simp add: copy_bytes.simps [of bytes type_size i p])
  next
    case False
    then show ?thesis by (simp add: copy_bytes.simps [of bytes type_size i p])
  qed
qed

lemma unat_succ_below: "i < (n :: uint8_t) \<Longrightarrow> unat (i + 1) = Suc (unat i)"
proof -
  assume "i < n"
  then have "unat i < unat n" by (simp add: word_less_nat_alt)
  moreover have "unat n < 2 ^ LENGTH(8)" by (rule unsigned_less)
  ultimately have "unat i + 1 < 256" by simp
  then show ?thesis by (simp add: unat_word_ariths)
qed

lemma unat_succ_u16: "unat (n :: uint16_t) + 1 < 65536 \<Longrightarrow> unat (n + 1) = Suc (unat n)"
  by (simp add: unat_word_ariths)

lemma copy_bytes_payload:
  "length bytes = unat ts \<Longrightarrow>
   unat (payload_length p) + (unat ts - unat i) \<le> length (payload p) \<Longrightarrow>
   length (payload p) < 65536 \<Longrightarrow>
   unat (payload_length (copy_bytes bytes ts i p)) = unat (payload_length p) + (unat ts - unat i)
   \<and> take (unat (payload_length p) + (unat ts - unat i)) (payload (copy_bytes bytes ts i p))
       = take (unat (payload_length p)) (payload p) @ drop (unat i) bytes
   \<and> drop (unat (payload_length p) + (unat ts - unat i)) (payload (copy_bytes bytes ts i p))
       = drop (unat (payload_length p) + (unat ts - unat i)) (payload p)"
proof (induction bytes ts i p rule: copy_bytes.induct)
  case (1 bytes type_size i p)
  show ?case
  proof (cases "i < type_size")
    case True
    let ?n = "unat (payload_length p)"
    let ?q = "p\<lparr>payload := (payload p)[?n := bytes ! unat i], payload_length := payload_length p + 1\<rparr>"
    from True have lt: "unat i < unat type_size" by (simp add: word_less_nat_alt)
    have si: "unat (i + 1) = Suc (unat i)" using True by (rule unat_succ_below)
    from lt "1.prems" have room: "?n + 1 < 65536" "?n < length (payload p)" by simp_all
    then have sn: "unat (payload_length p + 1) = Suc ?n" by (simp add: unat_succ_u16)
    define m where "m = ?n + (unat type_size - unat i)"
    have k: "unat (payload_length ?q) + (unat type_size - unat (i + 1)) = m"
      using lt by (simp add: m_def sn si)
    have pre: "unat (payload_length ?q) + (unat type_size - unat (i + 1)) \<le> length (payload ?q)"
      using "1.prems" lt by (simp add: sn si)
    have "unat (payload_length (copy_bytes bytes type_size (i + 1) ?q))
            = unat (payload_length ?q) + (unat type_size - unat (i + 1))
          \<and> take (unat (payload_length ?q) + (unat type_size - unat (i + 1)))
                (payload (copy_bytes bytes type_size (i + 1) ?q))
              = take (unat (payload_length ?q)) (payload ?q) @ drop (unat (i + 1)) bytes
          \<and> drop (unat (payload_length ?q) + (unat type_size - unat (i + 1)))
                (payload (copy_bytes bytes type_size (i + 1) ?q))
              = drop (unat (payload_length ?q) + (unat type_size - unat (i + 1))) (payload ?q)"
      using "1.prems" pre by (intro "1.IH" [OF True]) simp_all
    then have ih: "unat (payload_length (copy_bytes bytes type_size (i + 1) ?q)) = m"
      "take m (payload (copy_bytes bytes type_size (i + 1) ?q))
         = take (unat (payload_length ?q)) (payload ?q) @ drop (unat (i + 1)) bytes"
      "drop m (payload (copy_bytes bytes type_size (i + 1) ?q)) = drop m (payload ?q)"
      unfolding k by blast+
    have unf: "copy_bytes bytes type_size i p = copy_bytes bytes type_size (i + 1) ?q"
      using True by (simp add: copy_bytes.simps [of bytes type_size i p])
    have tk: "take (unat (payload_length ?q)) (payload ?q) = take ?n (payload p) @ [bytes ! unat i]"
      using room by (simp add: sn take_Suc_conv_app_nth)
    have dr: "drop (unat i) bytes = bytes ! unat i # drop (unat (i + 1)) bytes"
      using lt "1.prems" by (simp add: si Cons_nth_drop_Suc)
    have "?n < m" using lt by (simp add: m_def)
    then have dq: "drop m (payload ?q) = drop m (payload p)" by simp
    show ?thesis
      unfolding unf m_def [symmetric] by (simp only: ih tk dr dq append_Cons append_Nil append_assoc simp_thms)
  next
    case False
    then have "unat type_size - unat i = 0" by (simp add: word_less_nat_alt)
    with False "1.prems" show ?thesis
      by (simp add: copy_bytes.simps [of bytes type_size i p])
  qed
qed

section \<open>Type sizes and codes\<close>

lemma get_type_size_simps [simp]:
  "get_type_size DATA_TYPE_INT = 1"
  "get_type_size DATA_TYPE_FLOAT = 4"
  "get_type_size DATA_TYPE_DOUBLE = 8"
  by (simp_all add: get_type_size_def DATA_TYPE_INT_def DATA_TYPE_FLOAT_def DATA_TYPE_DOUBLE_def)

lemma data_type_codes [simp]:
  "unat DATA_TYPE_INT = 1" "unat DATA_TYPE_FLOAT = 2" "unat DATA_TYPE_DOUBLE = 3"
  by (simp_all add: DATA_TYPE_INT_def DATA_TYPE_FLOAT_def DATA_TYPE_DOUBLE_def)

lemma code_of_unat:
  "unat (d :: uint8_t) = 1 \<Longrightarrow> d = 1"
  "unat (d :: uint8_t) = 2 \<Longrightarrow> d = 2"
  "unat (d :: uint8_t) = 3 \<Longrightarrow> d = 3"
  by (simp_all add: word_unat_eq_iff)

lemma width_of_code:
  "unat (data_type p) = 1 \<Longrightarrow> width p = 1"
  "unat (data_type p) = 2 \<Longrightarrow> width p = 4"
  "unat (data_type p) = 3 \<Longrightarrow> width p = 8"
  by (drule code_of_unat, simp add: width_def get_type_size_def
      DATA_TYPE_INT_def DATA_TYPE_FLOAT_def DATA_TYPE_DOUBLE_def)+

lemma width_simps [simp]:
  "width (p\<lparr>data_type := 1\<rparr>) = 1"
  "width (p\<lparr>data_type := 2\<rparr>) = 4"
  "width (p\<lparr>data_type := 3\<rparr>) = 8"
  by (simp_all add: width_of_code)

lemma op_bytes_length [simp]:
  "length (DataValue_f32 v) = 4" "length (DataValue_f64 w) = 8"
  by (simp_all add: DataValue_f32_def DataValue_f64_def)

lemma count_narrow:
  "k < 256 \<Longrightarrow> \<not> c \<le> (of_nat k :: uint8_t) \<Longrightarrow> k < unat c"
  by (simp add: word_le_nat_alt unat_of_nat)

section \<open>One append\<close>

lemma append_result:
  "append (Some p) x = (- 1, Some p) \<or> (\<exists>p'. append (Some p) x = (0, Some p'))"
  by (cases x) (simp_all add: packet_add_int_def packet_add_float_def packet_add_double_def Let_def)

lemma packet_add_int_ok:
  assumes arr: "payload_array p" and ok: "packet_add_int (Some p) v = (0, Some p')"
  shows "unat (data_type p) = 1 \<and> slave_address p' = slave_address p
    \<and> data_type p' = data_type p \<and> variable_count p' = variable_count p
    \<and> payload_array p'
    \<and> unat (payload_length p') = unat (payload_length p) + 1
    \<and> payload_bytes p' = payload_bytes p @ [v]
    \<and> drop (unat (payload_length p) + 1) (payload p') = drop (unat (payload_length p) + 1) (payload p)
    \<and> unat (payload_length p) < unat (variable_count p)"
proof -
  let ?n = "unat (payload_length p)"
  from ok have dt: "unat (data_type p) = 1"
    and cnt: "\<not> variable_count p \<le> (of_nat ?n :: uint8_t)"
    and room: "?n + 1 \<le> 255"
    and p': "p' = p\<lparr>payload := (payload p)[?n := v], payload_length := payload_length p + 1\<rparr>"
    by (auto simp: packet_add_int_def Let_def split: if_splits)
  from room have sn: "unat (payload_length p + 1) = Suc ?n" by (simp add: unat_succ_u16)
  from room arr have "?n < length (payload p)" by (simp add: payload_array_def)
  then have "take (Suc ?n) ((payload p)[?n := v]) = take ?n (payload p) @ [v]"
    by (simp add: take_Suc_conv_app_nth)
  moreover from room cnt have "?n < unat (variable_count p)" by (intro count_narrow) simp_all
  ultimately show ?thesis using dt arr by (simp add: p' sn payload_bytes_def payload_array_def)
qed

lemma copy_bytes_ok:
  assumes arr: "payload_array p" and len: "length bytes = unat ts"
    and room: "unat (payload_length p) + unat ts \<le> 255 * 8"
  shows "slave_address (copy_bytes bytes ts 0 p) = slave_address p
    \<and> data_type (copy_bytes bytes ts 0 p) = data_type p
    \<and> variable_count (copy_bytes bytes ts 0 p) = variable_count p
    \<and> payload_array (copy_bytes bytes ts 0 p)
    \<and> unat (payload_length (copy_bytes bytes ts 0 p)) = unat (payload_length p) + unat ts
    \<and> payload_bytes (copy_bytes bytes ts 0 p) = payload_bytes p @ bytes
    \<and> drop (unat (payload_length p) + unat ts) (payload (copy_bytes bytes ts 0 p))
        = drop (unat (payload_length p) + unat ts) (payload p)"
proof -
  have "unat (payload_length p) + (unat ts - unat (0 :: uint8_t)) \<le> length (payload p)"
    and "length (payload p) < 65536"
    using arr room by (simp_all add: payload_array_def)
  from copy_bytes_payload [OF len this]
  show ?thesis using arr copy_bytes_fields [of bytes ts 0 p]
    by (simp add: payload_bytes_def payload_array_def)
qed

lemma packet_add_float_ok:
  assumes arr: "payload_array p" and ok: "packet_add_float (Some p) v = (0, Some p')"
  shows "unat (data_type p) = 2 \<and> slave_address p' = slave_address p
    \<and> data_type p' = data_type p \<and> variable_count p' = variable_count p
    \<and> payload_array p'
    \<and> unat (payload_length p') = unat (payload_length p) + 4
    \<and> payload_bytes p' = payload_bytes p @ DataValue_f32 v
    \<and> drop (unat (payload_length p) + 4) (payload p') = drop (unat (payload_length p) + 4) (payload p)
    \<and> unat (payload_length p) div 4 < unat (variable_count p)"
proof -
  let ?n = "unat (payload_length p)"
  from ok have dt: "unat (data_type p) = 2"
    and cnt: "\<not> variable_count p \<le> (of_nat (?n div 4) :: uint8_t)"
    and room: "?n + 4 \<le> 255 * 4"
    and p': "p' = copy_bytes (DataValue_f32 v) 4 0 p"
    by (auto simp: packet_add_float_def Let_def split: if_splits)
  from room have "?n + unat (4 :: uint8_t) \<le> 255 * 8" by simp
  from copy_bytes_ok [OF arr _ this, of "DataValue_f32 v"]
  have "slave_address p' = slave_address p
    \<and> data_type p' = data_type p \<and> variable_count p' = variable_count p
    \<and> payload_array p'
    \<and> unat (payload_length p') = unat (payload_length p) + 4
    \<and> payload_bytes p' = payload_bytes p @ DataValue_f32 v
    \<and> drop (unat (payload_length p) + 4) (payload p') = drop (unat (payload_length p) + 4) (payload p)"
    by (simp add: p')
  moreover from room cnt have "?n div 4 < unat (variable_count p)" by (intro count_narrow) simp_all
  ultimately show ?thesis using dt by simp
qed

lemma packet_add_double_ok:
  assumes arr: "payload_array p" and ok: "packet_add_double (Some p) v = (0, Some p')"
  shows "unat (data_type p) = 3 \<and> slave_address p' = slave_address p
    \<and> data_type p' = data_type p \<and> variable_count p' = variable_count p
    \<and> payload_array p'
    \<and> unat (payload_length p') = unat (payload_length p) + 8
    \<and> payload_bytes p' = payload_bytes p @ DataValue_f64 v
    \<and> drop (unat (payload_length p) + 8) (payload p') = drop (unat (payload_length p) + 8) (payload p)
    \<and> unat (payload_length p) div 8 < unat (variable_count p)"
proof -
  let ?n = "unat (payload_length p)"
  from ok have dt: "unat (data_type p) = 3"
    and cnt: "\<not> variable_count p \<le> (of_nat (?n div 8) :: uint8_t)"
    and room: "?n + 8 \<le> 255 * 8"
    and p': "p' = copy_bytes (DataValue_f64 v) 8 0 p"
    by (auto simp: packet_add_double_def Let_def split: if_splits)
  from room have "?n + unat (8 :: uint8_t) \<le> 255 * 8" by simp
  from copy_bytes_ok [OF arr _ this, of "DataValue_f64 v"]
  have "slave_address p' = slave_address p
    \<and> data_type p' = data_type p \<and> variable_count p' = variable_count p
    \<and> payload_array p'
    \<and> unat (payload_length p') = unat (payload_length p) + 8
    \<and> payload_bytes p' = payload_bytes p @ DataValue_f64 v
    \<and> drop (unat (payload_length p) + 8) (payload p') = drop (unat (payload_length p) + 8) (payload p)"
    by (simp add: p')
  moreover from room cnt have "?n div 8 < unat (variable_count p)" by (intro count_narrow) simp_all
  ultimately show ?thesis using dt by simp
qed

lemma append_ok:
  assumes arr: "payload_array p" and ok: "append (Some p) x = (0, Some p')"
  shows "unat (data_type p) = unat (op_type x) \<and> width p = length (op_bytes x)
    \<and> slave_address p' = slave_address p
    \<and> data_type p' = data_type p \<and> variable_count p' = variable_count p
    \<and> payload_array p'
    \<and> unat (payload_length p') = unat (payload_length p) + width p
    \<and> payload_bytes p' = payload_bytes p @ op_bytes x
    \<and> drop (unat (payload_length p) + width p) (payload p')
        = drop (unat (payload_length p) + width p) (payload p)
    \<and> filled_elements p < unat (variable_count p)"
proof (cases x)
  case (AddInt v)
  with packet_add_int_ok [OF arr, of v p'] ok show ?thesis
    by (simp add: width_of_code filled_elements_def)
next
  case (AddFloat v)
  with packet_add_float_ok [OF arr, of v p'] ok show ?thesis
    by (simp add: width_of_code filled_elements_def)
next
  case (AddDouble v)
  with packet_add_double_ok [OF arr, of v p'] ok show ?thesis
    by (simp add: width_of_code filled_elements_def)
qed

lemma op_width:
  "unat (data_type p) = unat (op_type x) \<Longrightarrow> width p = length (op_bytes x) \<and> 0 < width p"
  by (cases x) (simp_all add: width_of_code)

lemma count_below:
  "k < unat (c :: uint8_t) \<Longrightarrow> \<not> c \<le> (of_nat k :: uint8_t)"
proof -
  assume a: "k < unat c"
  have "unat c < 2 ^ LENGTH(8)" by (rule unsigned_less)
  with a have "k < 256" by simp
  with a show ?thesis by (simp add: word_le_nat_alt unat_of_nat)
qed

lemma append_succeeds:
  assumes dt: "unat (data_type p) = unat (op_type x)"
    and cnt: "filled_elements p < unat (variable_count p)"
    and room: "unat (payload_length p) + width p \<le> 255 * width p"
  shows "\<exists>p'. append (Some p) x = (0, Some p')"
proof (cases x)
  case (AddInt v)
  with dt have w: "width p = 1" by (simp add: width_of_code)
  with cnt have "\<not> variable_count p \<le> (of_nat (unat (payload_length p)) :: uint8_t)"
    by (intro count_below) (simp add: filled_elements_def)
  with AddInt dt room w show ?thesis by (simp add: packet_add_int_def Let_def)
next
  case (AddFloat v)
  with dt have w: "width p = 4" by (simp add: width_of_code)
  with cnt have "\<not> variable_count p \<le> (of_nat (unat (payload_length p) div 4) :: uint8_t)"
    by (intro count_below) (simp add: filled_elements_def)
  with AddFloat dt room w show ?thesis by (simp add: packet_add_float_def Let_def)
next
  case (AddDouble v)
  with dt have w: "width p = 8" by (simp add: width_of_code)
  with cnt have "\<not> variable_count p \<le> (of_nat (unat (payload_length p) div 8) :: uint8_t)"
    by (intro count_below) (simp add: filled_elements_def)
  with AddDouble dt room w show ?thesis by (simp add: packet_add_double_def Let_def)
qed

section \<open>Sequences of appends\<close>

lemma append_all_ok:
  "payload_array p \<Longrightarrow> \<forall>x \<in> set xs. unat (op_type x) = unat (data_type p) \<Longrightarrow>
   unat (payload_length p) = k * width p \<Longrightarrow> k + length xs \<le> unat (variable_count p) \<Longrightarrow>
   \<exists>p'. append_all (Some p) xs = (replicate (length xs) 0, Some p')
     \<and> payload_array p' \<and> slave_address p' = slave_address p
     \<and> data_type p' = data_type p \<and> variable_count p' = variable_count p
     \<and> unat (payload_length p') = (k + length xs) * width p
     \<and> payload_bytes p' = payload_bytes p @ concat (map op_bytes xs)"
proof (induction xs arbitrary: p k)
  case Nil
  then show ?case by simp
next
  case (Cons x xs)
  from Cons.prems have dt: "unat (data_type p) = unat (op_type x)" by simp
  from op_width [OF dt] have w: "width p = length (op_bytes x)" "0 < width p" by blast+
  have "unat (variable_count p) < 2 ^ LENGTH(8)" by (rule unsigned_less)
  with Cons.prems have k: "k < unat (variable_count p)" "Suc k \<le> 255" by simp_all
  from w Cons.prems have "filled_elements p = k" by (simp add: filled_elements_def)
  with k have cnt: "filled_elements p < unat (variable_count p)" by simp
  from k have "Suc k * width p \<le> 255 * width p" by (intro mult_le_mono1)
  with Cons.prems have room: "unat (payload_length p) + width p \<le> 255 * width p" by simp
  from append_succeeds [OF dt cnt room] obtain p1 where p1: "append (Some p) x = (0, Some p1)" ..
  note ok = append_ok [OF Cons.prems(1) p1]
  from ok Cons.prems have len1: "unat (payload_length p1) = Suc k * width p1"
    by (simp add: width_def)
  from ok have wid: "width p1 = width p" by (simp add: width_def)
  have "\<exists>p'. append_all (Some p1) xs = (replicate (length xs) 0, Some p')
     \<and> payload_array p' \<and> slave_address p' = slave_address p1
     \<and> data_type p' = data_type p1 \<and> variable_count p' = variable_count p1
     \<and> unat (payload_length p') = (Suc k + length xs) * width p1
     \<and> payload_bytes p' = payload_bytes p1 @ concat (map op_bytes xs)"
    using ok Cons.prems len1 by (intro Cons.IH) simp_all
  then obtain p' where "append_all (Some p1) xs = (replicate (length xs) 0, Some p')"
     "payload_array p'" "slave_address p' = slave_address p1"
     "data_type p' = data_type p1" "variable_count p' = variable_count p1"
     "unat (payload_length p') = (Suc k + length xs) * width p1"
     "payload_bytes p' = payload_bytes p1 @ concat (map op_bytes xs)"
    by blast
  with ok p1 wid show ?case by simp
qed

lemma reachable_inv:
  "reachable p \<Longrightarrow>
   payload_array p \<and> variable_count p \<noteq> 0
   \<and> (\<exists>k \<le> unat (variable_count p). unat (payload_length p) = k * width p)"
proof (induction rule: reachable.induct)
  case (init p0 slave_addr type var_count p)
  then show ?case
    by (auto simp: packet_init_def payload_array_def split: if_splits)
next
  case (step p x r p')
  from append_result [of p x] step.hyps(2)
  consider "p' = p" | "append (Some p) x = (0, Some p')" by auto
  then show ?case
  proof cases
    case 1
    with step.IH show ?thesis by simp
  next
    case 2
    from step.IH have arr: "payload_array p" by simp
    note ok = append_ok [OF arr 2]
    from ok have dt: "unat (data_type p) = unat (op_type x)" by simp
    from op_width [OF dt] have "0 < width p" by blast
    moreover from ok have "width p' = width p" by (simp add: width_def)
    ultimately have w: "0 < width p" "width p' = width p" by blast+
    from step.IH obtain k where k: "unat (payload_length p) = k * width p" by blast
    with w have "filled_elements p = k" by (simp add: filled_elements_def)
    with ok have "k < unat (variable_count p)" by simp
    moreover from k ok have "unat (payload_length p') = Suc k * width p" by simp
    ultimately have "\<exists>k \<le> unat (variable_count p'). unat (payload_length p') = k * width p'"
      using ok w by (intro exI [of _ "Suc k"]) simp
    with ok step.IH show ?thesis by simp
  qed
qed

section \<open>Serialising a builder\<close>

lemma expected_payload_size:
  "unat (variable_count p * get_type_size (ucast (data_type p)))
     = (unat (variable_count p) * width p) mod 256"
  by (simp add: unat_word_ariths width_def)

lemma packet_serialize_fails:
  "unat (payload_length p) \<noteq> (unat (variable_count p) * width p) mod 256 \<Longrightarrow>
   packet_serialize (Some p) (Some b) = (- 1, Some b)"
  by (simp add: packet_serialize_def Let_def expected_payload_size)

lemma header_write:
  "3 \<le> length b \<Longrightarrow> b[0 := s, Suc 0 := d, 2 := c] = [s, d, c] @ drop 3 b"
proof -
  assume "3 \<le> length b"
  then obtain x y z r where "b = x # y # z # r"
    by (cases b; cases "tl b"; cases "tl (tl b)") auto
  then show ?thesis by (simp add: numeral_2_eq_2)
qed

lemma packet_serialize_ok:
  assumes arr: "payload_array p"
    and len: "unat (payload_length p) = (unat (variable_count p) * width p) mod 256"
    and room: "3 + unat (payload_length p) \<le> length b"
  shows "packet_serialize (Some p) (Some b)
     = (of_nat (3 + unat (payload_length p)),
        Some ([slave_address p, data_type p, variable_count p] @ payload_bytes p
              @ drop (3 + unat (payload_length p)) b))"
proof -
  from room have 3: "3 \<le> length b" by simp
  have "memcpy_at ([slave_address p, data_type p, variable_count p] @ drop 3 b) 3
          (payload p) (unat (payload_length p))
        = [slave_address p, data_type p, variable_count p] @ payload_bytes p
              @ drop (3 + unat (payload_length p)) b"
    by (simp add: memcpy_at_def payload_bytes_def drop_append add.commute del: append_Cons)
  with len show ?thesis
    by (simp add: packet_serialize_def Let_def expected_payload_size header_write [OF 3])
qed

lemma ucast_code_byte: "(type :: DataType) \<le> 255 \<Longrightarrow> ucast (ucast type :: uint8_t) = type"
proof -
  assume "type \<le> 255"
  then have "unat type \<le> 255" by (simp add: word_le_nat_alt)
  then have "unat type mod 256 = unat type" by simp
  then show ?thesis
    by (simp add: word_unat_eq_iff unsigned_ucast_eq take_bit_eq_mod unat_mod_distrib)
qed

text \<open>A builder declared for one element, filled and serialised.\<close>

lemma single_element_packet:
  assumes arr: "payload_array p0" and room: "3 + length (op_bytes x) \<le> length b"
  shows "\<exists>p1 p2.
      packet_init (Some p0) slave_addr (op_type x) 1 = (0, Some p1)
    \<and> append (Some p1) x = (0, Some p2)
    \<and> payload_bytes p2 = op_bytes x
    \<and> packet_serialize (Some p2) (Some b)
        = (of_nat (3 + length (op_bytes x)),
           Some ([slave_addr, ucast (op_type x), 1] @ op_bytes x
                 @ drop (3 + length (op_bytes x)) b))"
proof -
  let ?p1 = "p0\<lparr>slave_address := slave_addr, data_type := ucast (op_type x),
                  variable_count := 1, payload_length := 0\<rparr>"
  have i: "packet_init (Some p0) slave_addr (op_type x) 1 = (0, Some ?p1)"
    by (simp add: packet_init_def)
  have arr1: "payload_array ?p1" using arr by (simp add: payload_array_def)
  have dt: "unat (data_type ?p1) = unat (op_type x)"
    by (cases x) (simp_all add: DATA_TYPE_INT_def DATA_TYPE_FLOAT_def DATA_TYPE_DOUBLE_def)
  from op_width [OF dt] have w: "width ?p1 = length (op_bytes x)" and pos: "0 < width ?p1"
    by blast+
  have cnt: "filled_elements ?p1 < unat (variable_count ?p1)"
    by (simp add: filled_elements_def)
  have "1 * width ?p1 \<le> 255 * width ?p1" by (intro mult_le_mono1) simp
  then have fits: "unat (payload_length ?p1) + width ?p1 \<le> 255 * width ?p1" by simp
  from append_succeeds [OF dt cnt fits]
  obtain p2 where a: "append (Some ?p1) x = (0, Some p2)" ..
  note ok = append_ok [OF arr1 a]
  from ok have f: "slave_address p2 = slave_addr" "data_type p2 = ucast (op_type x)"
    "variable_count p2 = 1" and arr2: "payload_array p2" by simp_all
  from ok have "unat (payload_length p2) = unat (payload_length ?p1) + width ?p1" by blast
  then have n: "unat (payload_length p2) = length (op_bytes x)" by (simp add: w)
  from ok have "payload_bytes p2 = payload_bytes ?p1 @ op_bytes x" by blast
  then have bytes: "payload_bytes p2 = op_bytes x" by (simp add: payload_bytes_def)
  from f w have w2: "width p2 = length (op_bytes x)" by (simp add: width_def)
  have "length (op_bytes x) \<le> 8" by (cases x) simp_all
  then have small: "length (op_bytes x) mod 256 = length (op_bytes x)" by simp
  have "packet_serialize (Some p2) (Some b)
     = (of_nat (3 + unat (payload_length p2)),
        Some ([slave_address p2, data_type p2, variable_count p2] @ payload_bytes p2
              @ drop (3 + unat (payload_length p2)) b))"
    using arr2 room by (intro packet_serialize_ok) (simp_all add: f n w2 small)
  then have s: "packet_serialize (Some p2) (Some b)
        = (of_nat (3 + length (op_bytes x)),
           Some ([slave_addr, ucast (op_type x), 1] @ op_bytes x
                 @ drop (3 + length (op_bytes x)) b))"
    by (simp only: n f bytes)
  show ?thesis
    by (intro exI [of _ ?p1] exI [of _ p2] conjI) (fact i a bytes s)+
qed

section \<open>Byte order\<close>

lemma upt_numerals:
  "[0..<3] = [0, 1, 2]" "[0..<4] = [0, 1, 2, 3]" "[0..<8] = [0, 1, 2, 3, 4, 5, 6, 7]"
  by (simp_all add: upt_rec)

lemma byte_of_word:
  "unat (ucast (drop_bit (8 * i) (v :: 'a::len word)) :: uint8_t) = (unat v div 256 ^ i) mod 256"
proof -
  have "(256 :: nat) ^ i = 2 ^ (8 * i)" by (simp add: power_mult)
  moreover have "unat (drop_bit (8 * i) v) = unat v div 2 ^ (8 * i)"
    unfolding unat_drop_bit_eq by (rule drop_bit_eq_div)
  moreover have "unat (ucast w :: uint8_t) = unat w mod 256" for w :: "'a word"
    by (simp add: unsigned_ucast_eq take_bit_eq_mod)
  ultimately show ?thesis by simp
qed

lemma op_bytes_little_endian:
  "i < length (op_bytes x) \<Longrightarrow> unat (op_bytes x ! i) = (op_value x div 256 ^ i) mod 256"
proof (cases x)
  case (AddInt v)
  moreover assume "i < length (op_bytes x)"
  ultimately show ?thesis using unsigned_less [of v, where 'a = nat] by simp
next
  case (AddFloat v)
  moreover assume "i < length (op_bytes x)"
  ultimately show ?thesis by (simp add: DataValue_f32_def byte_of_word del: upt_Suc)
next
  case (AddDouble v)
  moreover assume "i < length (op_bytes x)"
  ultimately show ?thesis by (simp add: DataValue_f64_def byte_of_word)
qed

section \<open>Decoding what was built\<close>

lemma le_step:
  "ucast (ucast w :: uint8_t) OR push_bit 8 (drop_bit 8 w) = (w :: 'a::len word)"
proof (rule bit_word_eqI)
  fix n
  assume n: "n < LENGTH('a)"
  show "bit (ucast (ucast w :: uint8_t) OR push_bit 8 (drop_bit 8 w)) n \<longleftrightarrow> bit w n"
  proof (cases "n < 8")
    case True
    with n show ?thesis
      by (simp add: bit_or_iff bit_push_bit_iff bit_ucast_iff bit_drop_bit_eq)
  next
    case False
    then have "n - 8 + 8 = n" by simp
    with False n show ?thesis
      by (simp add: bit_or_iff bit_push_bit_iff bit_ucast_iff bit_drop_bit_eq)
  qed
qed

lemma le_step_drop:
  "ucast (ucast (drop_bit n v) :: uint8_t) OR push_bit 8 (drop_bit (8 + n) v)
     = drop_bit n (v :: 'a::len word)"
  using le_step [of "drop_bit n v"] by (simp add: drop_bit_drop_bit)

lemma le_word_f32: "le_word (DataValue_f32 v) = v"
proof -
  have "DataValue_f32 v
      = [ucast (drop_bit 0 v), ucast (drop_bit 8 v), ucast (drop_bit 16 v), ucast (drop_bit 24 v)]"
    by (simp add: DataValue_f32_def upt_numerals)
  moreover have "push_bit 8 (0 :: float32) = push_bit 8 (drop_bit (8 + 24) v)" by simp
  ultimately have "le_word (DataValue_f32 v) = drop_bit 0 v"
    using le_step_drop [of 24 v] le_step_drop [of 16 v] le_step_drop [of 8 v] le_step_drop [of 0 v]
    by (simp only: le_word.simps) simp
  then show ?thesis by simp
qed

lemma le_word_f64: "le_word (DataValue_f64 v) = v"
proof -
  have "DataValue_f64 v
      = [ucast (drop_bit 0 v), ucast (drop_bit 8 v), ucast (drop_bit 16 v), ucast (drop_bit 24 v),
         ucast (drop_bit 32 v), ucast (drop_bit 40 v), ucast (drop_bit 48 v), ucast (drop_bit 56 v)]"
    by (simp add: DataValue_f64_def upt_numerals)
  moreover have "push_bit 8 (0 :: float64) = push_bit 8 (drop_bit (8 + 56) v)" by simp
  ultimately have "le_word (DataValue_f64 v) = drop_bit 0 v"
    using le_step_drop [of 56 v] le_step_drop [of 48 v] le_step_drop [of 40 v]
      le_step_drop [of 32 v] le_step_drop [of 24 v] le_step_drop [of 16 v]
      le_step_drop [of 8 v] le_step_drop [of 0 v]
    by (simp only: le_word.simps) simp
  then show ?thesis by simp
qed

lemma chunk_nth:
  "\<forall>x \<in> set xs. length (f x) = w \<Longrightarrow> i < length xs \<Longrightarrow>
   take w (drop (i * w) (concat (map f xs))) = f (xs ! i)"
proof (induction xs arbitrary: i)
  case Nil
  then show ?case by simp
next
  case (Cons x xs)
  show ?case
  proof (cases i)
    case 0
    with Cons.prems show ?thesis by simp
  next
    case (Suc j)
    with Cons.prems have "take w (drop (j * w) (concat (map f xs))) = f (xs ! j)"
      by (intro Cons.IH) simp_all
    moreover from Cons.prems have "length (f x) = w" by simp
    then have "drop (Suc j * w) (f x @ concat (map f xs)) = drop (j * w) (concat (map f xs))"
      by simp
    ultimately show ?thesis using Suc by simp
  qed
qed

lemma chunks_concat:
  "\<forall>x \<in> set xs. length (f x) = w \<Longrightarrow> chunks (length xs) w (concat (map f xs)) = map f xs"
proof -
  assume len: "\<forall>x \<in> set xs. length (f x) = w"
  show ?thesis
  proof (rule nth_equalityI)
    show "length (chunks (length xs) w (concat (map f xs))) = length (map f xs)"
      by (simp add: chunks_def)
  next
    fix i
    assume "i < length (chunks (length xs) w (concat (map f xs)))"
    then have i: "i < length xs" by (simp add: chunks_def)
    from chunk_nth [OF len i] i
    show "chunks (length xs) w (concat (map f xs)) ! i = map f xs ! i"
      by (simp add: chunks_def)
  qed
qed

lemma length_concat_chunks:
  "\<forall>x \<in> set xs. length (f x) = w \<Longrightarrow> length (concat (map f xs)) = length xs * w"
  by (induction xs) simp_all

lemma op_kind:
  "\<exists>kind. resolve_type (ucast (op_type x)) = Some kind
     \<and> kind_width kind = unat (get_type_size (op_type x))
     \<and> length (op_bytes x) = kind_width kind
     \<and> decode_chunk kind (op_bytes x) = op_decoded x"
  by (cases x)
    (simp_all add: resolve_type_def DATA_TYPE_INT_def DATA_TYPE_FLOAT_def DATA_TYPE_DOUBLE_def
      get_type_size_def le_word_f32 le_word_f64)

lemma decode_built:
  assumes kind: "resolve_type d = Some kind"
    and elems: "\<forall>x \<in> set xs. length (op_bytes x) = kind_width kind
                  \<and> decode_chunk kind (op_bytes x) = op_decoded x"
    and count: "length xs = unat c"
  shows "decode ([a, d, c] @ concat (map op_bytes xs))
     = Inr \<lparr>dec_slave_address = a, dec_data_type = kind, dec_variable_count = c,
             dec_values = map op_decoded xs\<rparr>"
proof -
  from elems have w: "\<forall>x \<in> set xs. length (op_bytes x) = kind_width kind" by blast
  from length_concat_chunks [OF w] count
  have n: "length (concat (map op_bytes xs)) = unat c * kind_width kind" by simp
  from chunks_concat [OF w] count
  have "chunks (unat c) (kind_width kind) (concat (map op_bytes xs)) = map op_bytes xs" by simp
  moreover from elems have "map (decode_chunk kind) (map op_bytes xs) = map op_decoded xs"
    by simp
  ultimately show ?thesis using kind n by (simp add: decode_def Let_def)
qed

text \<open>
  The round trip where the narrowing of \<open>expected_payload_size\<close> loses nothing, that is
  for \<open>variable_count \<times> width\<close> below 256: building, serialising and decoding give back
  the slave address, the type, the count and the values, bit for bit.
\<close>

lemma roundtrip_below_256:
  assumes arr: "payload_array p0"
    and types: "\<forall>x \<in> set xs. op_type x = type"
    and count: "length xs = unat var_count" "var_count \<noteq> 0"
    and small: "unat var_count * unat (get_type_size type) < 256"
    and room: "3 + unat var_count * unat (get_type_size type) \<le> length b"
  shows "\<exists>p1 p b' kind.
      packet_init (Some p0) slave_addr type var_count = (0, Some p1)
    \<and> append_all (Some p1) xs = (replicate (length xs) 0, Some p)
    \<and> packet_serialize (Some p) (Some b)
        = (of_nat (3 + unat var_count * unat (get_type_size type)), Some b')
    \<and> resolve_type (ucast type) = Some kind
    \<and> decode (take (3 + unat var_count * unat (get_type_size type)) b')
        = Inr \<lparr>dec_slave_address = slave_addr, dec_data_type = kind,
                dec_variable_count = var_count, dec_values = map op_decoded xs\<rparr>"
proof -
  let ?w = "unat (get_type_size type)"
  let ?p1 = "p0\<lparr>slave_address := slave_addr, data_type := ucast type,
                  variable_count := var_count, payload_length := 0\<rparr>"
  have "unat var_count < 2 ^ LENGTH(8)" by (rule unsigned_less)
  then have "\<not> unat var_count > 255" by simp
  with count have i: "packet_init (Some p0) slave_addr type var_count = (0, Some ?p1)"
    by (simp add: packet_init_def)
  from count have "xs \<noteq> []" by (auto simp: unat_eq_0)
  then obtain x0 where x0: "x0 \<in> set xs" by (cases xs) auto
  with types have t0: "op_type x0 = type" by simp
  then have code: "ucast (ucast type :: uint8_t) = type"
    by (cases x0) (auto simp: DATA_TYPE_INT_def DATA_TYPE_FLOAT_def DATA_TYPE_DOUBLE_def)
  then have w1: "width ?p1 = ?w" by (simp add: width_def)
  have "unat (ucast u :: DataType) = unat u" for u :: uint8_t
  proof -
    have "unat u < 2 ^ LENGTH(8)" by (rule unsigned_less)
    then have "unat u < 2 ^ 32" by simp
    then show ?thesis by (simp add: unsigned_ucast_eq take_bit_nat_eq_self)
  qed
  from this [of "ucast type"] code have "unat (ucast type :: uint8_t) = unat type" by simp
  with types have pre: "\<forall>x \<in> set xs. unat (op_type x) = unat (data_type ?p1)" by simp
  have arr1: "payload_array ?p1" using arr by (simp add: payload_array_def)
  have l0: "unat (payload_length ?p1) = 0 * width ?p1" by simp
  have c: "0 + length xs \<le> unat (variable_count ?p1)" using count by simp
  from append_all_ok [OF arr1 pre l0 c]
  obtain p where a: "append_all (Some ?p1) xs = (replicate (length xs) 0, Some p)"
    and raw: "slave_address p = slave_address ?p1" "data_type p = data_type ?p1"
      "variable_count p = variable_count ?p1"
      "unat (payload_length p) = (0 + length xs) * width ?p1"
      "payload_bytes p = payload_bytes ?p1 @ concat (map op_bytes xs)"
    and arr': "payload_array p"
    by blast
  from raw have f: "slave_address p = slave_addr" "data_type p = ucast type"
    "variable_count p = var_count" by simp_all
  from raw(4) count have n: "unat (payload_length p) = unat var_count * ?w" by (simp add: w1)
  from raw(5) have bytes: "payload_bytes p = concat (map op_bytes xs)"
    by (simp add: payload_bytes_def)
  from f code have w: "width p = ?w" by (simp add: width_def)
  let ?b' = "[slave_address p, data_type p, variable_count p] @ payload_bytes p
              @ drop (3 + unat (payload_length p)) b"
  have "packet_serialize (Some p) (Some b) = (of_nat (3 + unat (payload_length p)), Some ?b')"
    using arr' room small by (intro packet_serialize_ok) (simp_all add: f n w)
  then have s: "packet_serialize (Some p) (Some b) = (of_nat (3 + unat var_count * ?w), Some ?b')"
    by (simp only: n)
  from op_kind [of x0] t0 obtain kind where k: "resolve_type (ucast type) = Some kind"
    "kind_width kind = ?w" by auto
  have elems: "\<forall>x \<in> set xs. length (op_bytes x) = kind_width kind
                  \<and> decode_chunk kind (op_bytes x) = op_decoded x"
  proof
    fix x assume "x \<in> set xs"
    with types have "op_type x = type" by simp
    with op_kind [of x] k show "length (op_bytes x) = kind_width kind
                  \<and> decode_chunk kind (op_bytes x) = op_decoded x" by auto
  qed
  from elems have "\<forall>x \<in> set xs. length (op_bytes x) = ?w" by (simp add: k)
  from length_concat_chunks [OF this] count
  have "length (payload_bytes p) = unat var_count * ?w" by (simp add: bytes)
  then have t: "take (3 + unat var_count * ?w) ?b' = [slave_addr, ucast type, var_count]
      @ concat (map op_bytes xs)"
    by (simp add: f bytes numeral_3_eq_3)
  from decode_built [OF k(1) elems count(1), of slave_addr]
  have d: "decode (take (3 + unat var_count * ?w) ?b')
     = Inr \<lparr>dec_slave_address = slave_addr, dec_data_type = kind,
             dec_variable_count = var_count, dec_values = map op_decoded xs\<rparr>"
    by (simp only: t)
  show ?thesis
    by (intro exI [of _ ?p1] exI [of _ p] exI [of _ ?b'] exI [of _ kind] conjI) (fact i a s k d)+
qed

section \<open>Type registry\<close>

text \<open>
  C8.  The width function \<open>get_type_size\<close> returns 1 for INT8 (code 1), 4 for FLOAT32
  (code 2) and 8 for FLOAT64 (code 3), and the sentinel 0 for every value that is none of
  the three codes.
\<close>

theorem get_type_size_registry:
  "get_type_size DATA_TYPE_INT = 1 \<and> DATA_TYPE_INT = 1
   \<and> get_type_size DATA_TYPE_FLOAT = 4 \<and> DATA_TYPE_FLOAT = 2
   \<and> get_type_size DATA_TYPE_DOUBLE = 8 \<and> DATA_TYPE_DOUBLE = 3
   \<and> (\<forall>t. t \<noteq> 1 \<and> t \<noteq> 2 \<and> t \<noteq> 3 \<longrightarrow> get_type_size t = 0)"
  by (simp add: get_type_size_def DATA_TYPE_INT_def DATA_TYPE_FLOAT_def DATA_TYPE_DOUBLE_def)

theorem get_type_size_registry_witness:
  "(9 :: DataType) \<noteq> 1 \<and> (9 :: DataType) \<noteq> 2 \<and> (9 :: DataType) \<noteq> 3 \<and> get_type_size 9 = 0"
proof -
  have "\<forall>t. t \<noteq> 1 \<and> t \<noteq> 2 \<and> t \<noteq> 3 \<longrightarrow> get_type_size t = 0"
    using get_type_size_registry by blast
  then have "(9 :: DataType) \<noteq> 1 \<and> (9 :: DataType) \<noteq> 2 \<and> (9 :: DataType) \<noteq> 3
      \<longrightarrow> get_type_size 9 = 0"
    by (rule spec)
  then show ?thesis by simp
qed

section \<open>Capacity\<close>

text \<open>
  C4.  A builder that holds exactly \<open>variable_count\<close> elements rejects the next append of
  a value of its own type: the call returns \<open>-1\<close> and leaves the structure as it was.
  The test is made on the declared count; the room left in the 2040-byte array plays no
  part.
\<close>

theorem append_at_capacity_fails:
  assumes dt: "unat (data_type p) = unat (op_type x)"
    and full: "filled_elements p = unat (variable_count p)"
  shows "append (Some p) x = (- 1, Some p)"
proof (cases x)
  case (AddInt v)
  with dt have w: "width p = 1" by (simp add: width_of_code)
  with full have "(of_nat (unat (payload_length p)) :: uint8_t) = variable_count p"
    by (simp add: filled_elements_def)
  with AddInt show ?thesis by (simp add: packet_add_int_def Let_def)
next
  case (AddFloat v)
  with dt have w: "width p = 4" by (simp add: width_of_code)
  with full have "(of_nat (unat (payload_length p) div 4) :: uint8_t) = variable_count p"
    by (simp add: filled_elements_def)
  with AddFloat show ?thesis by (simp add: packet_add_float_def Let_def)
next
  case (AddDouble v)
  with dt have w: "width p = 8" by (simp add: width_of_code)
  with full have "(of_nat (unat (payload_length p) div 8) :: uint8_t) = variable_count p"
    by (simp add: filled_elements_def)
  with AddDouble show ?thesis by (simp add: packet_add_double_def Let_def)
qed

theorem append_at_capacity_fails_witness:
  "filled_elements (zero_packet\<lparr>data_type := 1, variable_count := 255, payload_length := 255\<rparr>) = 255
   \<and> packet_add_int (Some (zero_packet\<lparr>data_type := 1, variable_count := 255, payload_length := 255\<rparr>)) 7
       = (- 1, Some (zero_packet\<lparr>data_type := 1, variable_count := 255, payload_length := 255\<rparr>))
   \<and> filled_elements (zero_packet\<lparr>data_type := 2, variable_count := 2, payload_length := 8\<rparr>) = 2
   \<and> packet_add_float (Some (zero_packet\<lparr>data_type := 2, variable_count := 2, payload_length := 8\<rparr>)) 7
       = (- 1, Some (zero_packet\<lparr>data_type := 2, variable_count := 2, payload_length := 8\<rparr>))
   \<and> filled_elements (zero_packet\<lparr>data_type := 3, variable_count := 1, payload_length := 8\<rparr>) = 1
   \<and> packet_add_double (Some (zero_packet\<lparr>data_type := 3, variable_count := 1, payload_length := 8\<rparr>)) 7
       = (- 1, Some (zero_packet\<lparr>data_type := 3, variable_count := 1, payload_length := 8\<rparr>))"
proof -
  let ?a = "zero_packet\<lparr>data_type := 1, variable_count := 255, payload_length := 255\<rparr>"
  let ?b = "zero_packet\<lparr>data_type := 2, variable_count := 2, payload_length := 8\<rparr>"
  let ?c = "zero_packet\<lparr>data_type := 3, variable_count := 1, payload_length := 8\<rparr>"
  have fa: "filled_elements ?a = unat (variable_count ?a)"
    and fb: "filled_elements ?b = unat (variable_count ?b)"
    and fc: "filled_elements ?c = unat (variable_count ?c)"
    by (simp_all add: filled_elements_def width_of_code)
  have da: "unat (data_type ?a) = unat (op_type (AddInt 7))"
    and db: "unat (data_type ?b) = unat (op_type (AddFloat 7))"
    and dc: "unat (data_type ?c) = unat (op_type (AddDouble 7))"
    by simp_all
  from append_at_capacity_fails [OF da fa] append_at_capacity_fails [OF db fb]
    append_at_capacity_fails [OF dc fc] fa fb fc
  show ?thesis by simp
qed

section \<open>Type isolation\<close>

text \<open>
  C5, as the code has it.  An append whose type differs from the builder's
  \<open>data_type\<close> fails and leaves the structure as it was.  The failure is the return
  code \<open>-1\<close>, the one code every failing call returns.
\<close>

theorem append_type_mismatch_fails:
  "unat (data_type p) \<noteq> unat (op_type x) \<Longrightarrow> append (Some p) x = (- 1, Some p)"
  by (cases x) (simp_all add: packet_add_int_def packet_add_float_def packet_add_double_def)

theorem append_type_mismatch_fails_witness:
  "unat (data_type (zero_packet\<lparr>data_type := 1, variable_count := 3\<rparr>)) \<noteq> unat (op_type (AddFloat 7))
   \<and> packet_add_float (Some (zero_packet\<lparr>data_type := 1, variable_count := 3\<rparr>)) 7
       = (- 1, Some (zero_packet\<lparr>data_type := 1, variable_count := 3\<rparr>))"
proof -
  let ?a = "zero_packet\<lparr>data_type := 1, variable_count := 3\<rparr>"
  have d: "unat (data_type ?a) \<noteq> unat (op_type (AddFloat 7))" by simp
  from append_type_mismatch_fails [OF d] d show ?thesis by simp
qed

text \<open>
  C5, as the specification has it, asks for a \<open>TypeMismatch\<close> error that differs from
  the \<open>CapacityExceeded\<close> error.  Appending a float to an INT8 builder with room left
  (a type mismatch) and appending an integer to a full INT8 builder (capacity reached)
  return the same code.
\<close>

theorem type_mismatch_same_code_as_capacity:
  "fst (packet_add_float (Some (zero_packet\<lparr>data_type := 1, variable_count := 1\<rparr>)) 0)
     = fst (packet_add_int
              (Some (zero_packet\<lparr>data_type := 1, variable_count := 1, payload_length := 1\<rparr>)) 0)"
  by (simp add: packet_add_float_def packet_add_int_def zero_packet_def)

section \<open>Append atomicity\<close>

text \<open>
  C7.  An append either succeeds, and then commits the bytes of exactly one element
  (the payload grows by the element's bytes, \<open>payload_length\<close> by the width and
  \<open>filled_elements\<close> by one, the header fields and the rest of the array stay as they
  were), or it fails with \<open>-1\<close> and leaves the whole structure as it was.
\<close>

theorem append_atomic:
  assumes arr: "payload_array p"
  shows "(\<exists>p'. append (Some p) x = (0, Some p')
            \<and> width p = length (op_bytes x)
            \<and> unat (payload_length p') = unat (payload_length p) + width p
            \<and> filled_elements p' = filled_elements p + 1
            \<and> payload_bytes p' = payload_bytes p @ op_bytes x
            \<and> slave_address p' = slave_address p
            \<and> data_type p' = data_type p
            \<and> variable_count p' = variable_count p
            \<and> payload_array p'
            \<and> drop (unat (payload_length p')) (payload p')
                = drop (unat (payload_length p')) (payload p))
         \<or> append (Some p) x = (- 1, Some p)"
proof (cases "append (Some p) x = (- 1, Some p)")
  case True
  then show ?thesis by simp
next
  case False
  with append_result [of p x] obtain p' where p': "append (Some p) x = (0, Some p')" by blast
  note ok = append_ok [OF arr p']
  from ok have dt: "unat (data_type p) = unat (op_type x)" by simp
  from op_width [OF dt] have pos: "0 < width p" by blast
  from ok have "width p' = width p" by (simp add: width_def)
  with ok pos have fe: "filled_elements p' = filled_elements p + 1"
    by (simp add: filled_elements_def)
  from ok have len: "unat (payload_length p') = unat (payload_length p) + width p" by blast
  from ok have "drop (unat (payload_length p) + width p) (payload p')
      = drop (unat (payload_length p) + width p) (payload p)" by blast
  then have dr: "drop (unat (payload_length p')) (payload p')
      = drop (unat (payload_length p')) (payload p)" by (simp only: len)
  from ok have rest: "width p = length (op_bytes x)"
    "payload_bytes p' = payload_bytes p @ op_bytes x"
    "slave_address p' = slave_address p" "data_type p' = data_type p"
    "variable_count p' = variable_count p" "payload_array p'" by blast+
  show ?thesis
    by (intro disjI1 exI [of _ p'] conjI) (fact p' rest len fe dr)+
qed

theorem append_atomic_witness:
  "payload_array (zero_packet\<lparr>data_type := 2, variable_count := 2\<rparr>)
   \<and> fst (append (Some (zero_packet\<lparr>data_type := 2, variable_count := 2\<rparr>)) (AddFloat 7)) = 0
   \<and> (\<exists>p'. append (Some (zero_packet\<lparr>data_type := 2, variable_count := 2\<rparr>)) (AddFloat 7) = (0, Some p')
         \<and> unat (payload_length p') = 4 \<and> filled_elements p' = 1
         \<and> payload_bytes p' = DataValue_f32 7)"
proof -
  let ?a = "zero_packet\<lparr>data_type := 2, variable_count := 2\<rparr>"
  have arr: "payload_array ?a" by (simp add: payload_array_def zero_packet_def)
  have ok: "fst (append (Some ?a) (AddFloat 7)) = 0"
    by (simp add: packet_add_float_def zero_packet_def)
  have z: "unat (payload_length ?a) = 0" "filled_elements ?a = 0" "payload_bytes ?a = []"
    by (simp_all add: filled_elements_def payload_bytes_def zero_packet_def)
  from append_atomic [OF arr, of "AddFloat 7"] ok arr z show ?thesis by auto
qed

section \<open>Builder invariants\<close>

text \<open>
  C9.  Every builder reachable from a successful \<open>packet_init\<close> by append calls has
  \<open>0 < variable_count \<le> 255\<close>, at most \<open>255 \<times> width\<close> payload bytes, at most
  \<open>variable_count\<close> filled elements and a payload length that is a multiple of the
  width.  (This holds for every type code given to \<open>packet_init\<close>, the three recognized
  ones in particular.)
\<close>

theorem reachable_invariants:
  assumes "reachable p"
  shows "0 < unat (variable_count p) \<and> unat (variable_count p) \<le> 255
    \<and> length (payload_bytes p) = unat (payload_length p)
    \<and> length (payload_bytes p) \<le> 255 * width p
    \<and> filled_elements p \<le> unat (variable_count p)
    \<and> length (payload_bytes p) = filled_elements p * width p"
proof -
  from reachable_inv [OF assms] obtain k
    where arr: "payload_array p" and nz: "variable_count p \<noteq> 0"
      and k: "k \<le> unat (variable_count p)" "unat (payload_length p) = k * width p"
    by blast
  have "unat (variable_count p) < 2 ^ LENGTH(8)" by (rule unsigned_less)
  then have c: "unat (variable_count p) \<le> 255" by simp
  from nz have pos: "0 < unat (variable_count p)" by (simp add: unat_gt_0)
  have "unat (get_type_size t) \<le> 8" for t by (simp add: get_type_size_def)
  then have w8: "width p \<le> 8" by (simp add: width_def)
  from k c have "k \<le> 255" by simp
  then have le: "k * width p \<le> 255 * width p" by (intro mult_le_mono1)
  also have "\<dots> \<le> 255 * 8" using w8 by simp
  finally have "unat (payload_length p) \<le> length (payload p)"
    using arr k by (simp add: payload_array_def)
  then have len: "length (payload_bytes p) = unat (payload_length p)"
    by (simp add: payload_bytes_def)
  have f: "filled_elements p * width p = k * width p" "filled_elements p \<le> k"
    using k by (cases "width p = 0"; simp add: filled_elements_def)+
  from f k have fc: "filled_elements p \<le> unat (variable_count p)" by simp
  from len k le have b: "length (payload_bytes p) \<le> 255 * width p" by simp
  from len k f have m: "length (payload_bytes p) = filled_elements p * width p"
    by (simp only:)
  show ?thesis
    by (intro conjI) (fact pos c len b fc m)+
qed

theorem reachable_invariants_witness:
  "reachable (zero_packet\<lparr>slave_address := 1, data_type := 1, variable_count := 3,
       payload := (payload zero_packet)[0 := 25], payload_length := 1\<rparr>)
   \<and> filled_elements (zero_packet\<lparr>slave_address := 1, data_type := 1, variable_count := 3,
       payload := (payload zero_packet)[0 := 25], payload_length := 1\<rparr>) = 1
   \<and> length (payload_bytes (zero_packet\<lparr>slave_address := 1, data_type := 1, variable_count := 3,
       payload := (payload zero_packet)[0 := 25], payload_length := 1\<rparr>)) = 1"
proof -
  let ?a = "zero_packet\<lparr>slave_address := 1, data_type := 1, variable_count := 3, payload_length := 0\<rparr>"
  let ?b = "zero_packet\<lparr>slave_address := 1, data_type := 1, variable_count := 3,
       payload := (payload zero_packet)[0 := 25], payload_length := 1\<rparr>"
  have "payload_array zero_packet" by (simp add: payload_array_def zero_packet_def)
  moreover have "packet_init (Some zero_packet) 1 DATA_TYPE_INT 3 = (0, Some ?a)"
    by (simp add: packet_init_def DATA_TYPE_INT_def)
  ultimately have "reachable ?a" by (rule reachable.init)
  moreover have "append (Some ?a) (AddInt 25) = (0, Some ?b)"
    by (simp add: packet_add_int_def)
  ultimately have r: "reachable ?b" by (rule reachable.step)
  have w: "width ?b = 1" by (simp add: width_of_code)
  from reachable_invariants [OF r] r w show ?thesis by (simp add: filled_elements_def)
qed

section \<open>Unknown type codes\<close>

text \<open>
  C10.  \<open>packet_init\<close> accepts a type code that \<open>get_type_size\<close> does not know (a
  code of one byte, as the header carries it), for every \<open>variable_count\<close> from 1 to
  255; serialising the builder at once, with no element appended, returns 3 and writes
  the three header bytes, the unknown code among them.
\<close>

theorem unknown_type_header_only:
  assumes unknown: "get_type_size type = 0" and byte: "type \<le> 255"
    and count: "var_count \<noteq> 0" and room: "3 \<le> length b"
  shows "packet_init (Some p0) slave_addr type var_count
           = (0, Some (p0\<lparr>slave_address := slave_addr, data_type := ucast type,
                            variable_count := var_count, payload_length := 0\<rparr>))
    \<and> packet_serialize
          (Some (p0\<lparr>slave_address := slave_addr, data_type := ucast type,
                       variable_count := var_count, payload_length := 0\<rparr>)) (Some b)
           = (3, Some ([slave_addr, ucast type, var_count] @ drop 3 b))
    \<and> ucast (ucast type :: uint8_t) = type"
proof -
  let ?p = "p0\<lparr>slave_address := slave_addr, data_type := ucast type,
                 variable_count := var_count, payload_length := 0\<rparr>"
  have "unat var_count < 2 ^ LENGTH(8)" by (rule unsigned_less)
  then have "\<not> unat var_count > 255" by simp
  with count have i: "packet_init (Some p0) slave_addr type var_count = (0, Some ?p)"
    by (simp add: packet_init_def)
  note code = ucast_code_byte [OF byte]
  with unknown have "get_type_size (ucast (data_type ?p)) = 0" by simp
  then have s: "packet_serialize (Some ?p) (Some b)
      = (3, Some ([slave_addr, ucast type, var_count] @ drop 3 b))"
    by (simp add: packet_serialize_def memcpy_at_def header_write [OF room])
  from i s code show ?thesis by simp
qed

theorem unknown_type_header_only_witness:
  "get_type_size 9 = 0 \<and> (9 :: DataType) \<le> 255 \<and> (5 :: uint8_t) \<noteq> 0 \<and> 3 \<le> length zero_buffer
   \<and> packet_init (Some zero_packet) 5 9 5
        = (0, Some (zero_packet\<lparr>slave_address := 5, data_type := 9, variable_count := 5,
                                   payload_length := 0\<rparr>))
   \<and> packet_serialize
        (Some (zero_packet\<lparr>slave_address := 5, data_type := 9, variable_count := 5,
                              payload_length := 0\<rparr>)) (Some zero_buffer)
        = (3, Some ([5, 9, 5] @ drop 3 zero_buffer))"
proof -
  have u: "get_type_size 9 = 0"
    by (simp add: get_type_size_def DATA_TYPE_INT_def DATA_TYPE_FLOAT_def DATA_TYPE_DOUBLE_def)
  have b: "(9 :: DataType) \<le> 255" and c: "(5 :: uint8_t) \<noteq> 0" by simp_all
  have r: "3 \<le> length zero_buffer" by (simp add: zero_buffer_def)
  from unknown_type_header_only [OF u b c r, of zero_packet 5] u b c r
  show ?thesis by simp
qed

section \<open>The narrowed size check\<close>

text \<open>
  C1, at a builder the claim speaks of.  A FLOAT32 builder declared with 64 elements
  and holding none: 64 \<times> 4 = 256 is narrowed to 0 in \<open>expected_payload_size\<close>, the
  empty payload passes the check, and \<open>packet_serialize\<close> returns 3 with a header that
  announces 64 values.
\<close>

theorem empty_float_64_serializes:
  "packet_init (Some zero_packet) 1 DATA_TYPE_FLOAT 64
     = (0, Some (zero_packet\<lparr>slave_address := 1, data_type := 2, variable_count := 64,
                                payload_length := 0\<rparr>))
   \<and> filled_elements (zero_packet\<lparr>slave_address := 1, data_type := 2, variable_count := 64,
                                payload_length := 0\<rparr>) = 0
   \<and> packet_serialize
        (Some (zero_packet\<lparr>slave_address := 1, data_type := 2, variable_count := 64,
                              payload_length := 0\<rparr>)) (Some zero_buffer)
     = (3, Some ([1, 2, 64] @ drop 3 zero_buffer))"
proof -
  let ?p = "zero_packet\<lparr>slave_address := 1, data_type := 2, variable_count := 64,
                                payload_length := 0\<rparr>"
  have i: "packet_init (Some zero_packet) 1 DATA_TYPE_FLOAT 64 = (0, Some ?p)"
    by (simp add: packet_init_def DATA_TYPE_FLOAT_def)
  have f: "filled_elements ?p = 0" by (simp add: filled_elements_def)
  have r: "3 \<le> length zero_buffer" by (simp add: zero_buffer_def)
  have "get_type_size (ucast (data_type ?p)) = 4" by (simp add: get_type_size_def DATA_TYPE_INT_def DATA_TYPE_FLOAT_def)
  then have s: "packet_serialize (Some ?p) (Some zero_buffer) = (3, Some ([1, 2, 64] @ drop 3 zero_buffer))"
    by (simp add: packet_serialize_def memcpy_at_def header_write [OF r])
  from i f s show ?thesis by simp
qed

text \<open>
  C2, at an input the claim speaks of.  A FLOAT32 builder declared with 64 elements
  takes 64 values, every append returning 0, and holds 256 payload bytes;
  \<open>packet_serialize\<close> compares 256 with the narrowed 0 and returns \<open>-1\<close>: there is no
  byte sequence to decode.
\<close>

theorem full_float_64_not_serialized:
  "\<exists>p. append_all
          (Some (zero_packet\<lparr>slave_address := 1, data_type := 2, variable_count := 64,
                                payload_length := 0\<rparr>))
          (replicate 64 (AddFloat 0)) = (replicate 64 0, Some p)
       \<and> data_type p = 2 \<and> variable_count p = 64 \<and> unat (payload_length p) = 64 * 4
       \<and> packet_serialize (Some p) (Some zero_buffer) = (- 1, Some zero_buffer)"
proof -
  let ?q = "zero_packet\<lparr>slave_address := 1, data_type := 2, variable_count := 64,
                                payload_length := 0\<rparr>"
  have arr: "payload_array ?q" by (simp add: payload_array_def zero_packet_def)
  have w: "width ?q = 4" by (simp add: width_of_code)
  from append_all_ok [of ?q "replicate 64 (AddFloat 0)" 0, OF arr]
  obtain p where p: "append_all (Some ?q) (replicate 64 (AddFloat 0)) = (replicate 64 0, Some p)"
    "data_type p = 2" "variable_count p = 64" "unat (payload_length p) = 64 * 4"
    by (auto simp: w)
  from p have "width p = 4" by (simp add: width_of_code)
  with p have "unat (payload_length p) \<noteq> (unat (variable_count p) * width p) mod 256" by simp
  then have "packet_serialize (Some p) (Some zero_buffer) = (- 1, Some zero_buffer)"
    by (rule packet_serialize_fails)
  with p show ?thesis by blast
qed

section \<open>The INT8 scenario\<close>

text \<open>
  C3.  A builder initialised with slave address 1, type INT8 and count 3 takes the
  values 25, 60 and 99, each append returning 0; \<open>packet_serialize\<close> returns 6 and the
  first six bytes of the buffer are \<open>01 01 03 19 3C 63\<close>; the decoder reads that sequence
  back as slave address 1, type INT8 and the values 25, 60, 99.
\<close>

theorem int8_scenario:
  assumes arr: "payload_array p0" and room: "6 \<le> length b"
  shows "\<exists>p1 p4 b'.
      packet_init (Some p0) 1 DATA_TYPE_INT 3 = (0, Some p1)
    \<and> append_all (Some p1) [AddInt 25, AddInt 60, AddInt 99] = ([0, 0, 0], Some p4)
    \<and> packet_serialize (Some p4) (Some b) = (6, Some b')
    \<and> take 6 b' = [0x01, 0x01, 0x03, 0x19, 0x3C, 0x63]
    \<and> decode (take 6 b')
        = Inr \<lparr>dec_slave_address = 1, dec_data_type = INT8, dec_variable_count = 3,
               dec_values = [Int8Value 25, Int8Value 60, Int8Value 99]\<rparr>"
proof -
  let ?p1 = "p0\<lparr>slave_address := 1, data_type := 1, variable_count := 3, payload_length := 0\<rparr>"
  let ?xs = "[AddInt 25, AddInt 60, AddInt 99]"
  have i: "packet_init (Some p0) 1 DATA_TYPE_INT 3 = (0, Some ?p1)"
    by (simp add: packet_init_def DATA_TYPE_INT_def)
  have arr1: "payload_array ?p1" using arr by (simp add: payload_array_def)
  have w1: "width ?p1 = 1" by (simp add: width_of_code)
  have pre: "\<forall>x \<in> set ?xs. unat (op_type x) = unat (data_type ?p1)" by simp
  have l0: "unat (payload_length ?p1) = 0 * width ?p1" by simp
  have c: "0 + length ?xs \<le> unat (variable_count ?p1)" by simp
  from append_all_ok [OF arr1 pre l0 c]
  obtain p4 where raw: "append_all (Some ?p1) ?xs = (replicate (length ?xs) 0, Some p4)"
      "slave_address p4 = slave_address ?p1" "data_type p4 = data_type ?p1"
      "variable_count p4 = variable_count ?p1"
      "unat (payload_length p4) = (0 + length ?xs) * width ?p1"
      "payload_bytes p4 = payload_bytes ?p1 @ concat (map op_bytes ?xs)"
    and arr4: "payload_array p4"
    by blast
  have rep: "replicate (length ?xs) (0 :: int8_t) = [0, 0, 0]" by (simp add: numeral_3_eq_3)
  from raw(1) have a: "append_all (Some ?p1) ?xs = ([0, 0, 0], Some p4)" by (simp only: rep)
  from raw have f: "slave_address p4 = 1" "data_type p4 = 1" "variable_count p4 = 3"
    by simp_all
  from raw(5) have n: "unat (payload_length p4) = 3" by (simp add: w1)
  from raw(6) have bytes: "payload_bytes p4 = [25, 60, 99]" by (simp add: payload_bytes_def)
  from f have w4: "width p4 = 1" by (simp add: width_of_code)
  let ?b' = "[slave_address p4, data_type p4, variable_count p4] @ payload_bytes p4
              @ drop (3 + unat (payload_length p4)) b"
  have "packet_serialize (Some p4) (Some b) = (of_nat (3 + unat (payload_length p4)), Some ?b')"
    using arr4 room by (intro packet_serialize_ok) (simp_all add: f n w4)
  then have s: "packet_serialize (Some p4) (Some b) = (6, Some ?b')" by (simp add: n)
  have t: "take 6 ?b' = [0x01, 0x01, 0x03, 0x19, 0x3C, 0x63]" by (simp add: f bytes)
  have d: "decode [0x01, 0x01, 0x03, 0x19, 0x3C, 0x63]
     = Inr \<lparr>dec_slave_address = 1, dec_data_type = INT8, dec_variable_count = 3,
             dec_values = [Int8Value 25, Int8Value 60, Int8Value 99]\<rparr>"
    by (simp add: decode_def resolve_type_def chunks_def Let_def upt_numerals)
  from d t have d': "decode (take 6 ?b')
     = Inr \<lparr>dec_slave_address = 1, dec_data_type = INT8, dec_variable_count = 3,
             dec_values = [Int8Value 25, Int8Value 60, Int8Value 99]\<rparr>"
    by (simp only:)
  show ?thesis
    by (intro exI [of _ ?p1] exI [of _ p4] exI [of _ ?b'] conjI) (fact i a s t d')+
qed

theorem int8_scenario_witness:
  "payload_array zero_packet \<and> 6 \<le> length zero_buffer
   \<and> (\<exists>p4 b'. append_all
          (Some (zero_packet\<lparr>slave_address := 1, data_type := 1, variable_count := 3,
                                payload_length := 0\<rparr>))
          [AddInt 25, AddInt 60, AddInt 99] = ([0, 0, 0], Some p4)
        \<and> packet_serialize (Some p4) (Some zero_buffer) = (6, Some b')
        \<and> take 6 b' = [0x01, 0x01, 0x03, 0x19, 0x3C, 0x63])"
proof -
  have arr: "payload_array zero_packet" by (simp add: payload_array_def zero_packet_def)
  have room: "6 \<le> length zero_buffer" by (simp add: zero_buffer_def)
  have i: "packet_init (Some zero_packet) 1 DATA_TYPE_INT 3
     = (0, Some (zero_packet\<lparr>slave_address := 1, data_type := 1, variable_count := 3,
                                payload_length := 0\<rparr>))"
    by (simp add: packet_init_def DATA_TYPE_INT_def)
  from int8_scenario [OF arr room] arr room show ?thesis unfolding i by auto
qed

section \<open>Little-endian encoding\<close>

text \<open>
  C6.  An append of a value of the builder's type, below the declared count and the
  byte ceiling, succeeds; every successful append adds exactly \<open>width\<close> bytes to the
  payload, and byte \<open>i\<close> of them is digit \<open>i\<close> of the value's bit pattern in base 256,
  least significant first.  The FLOAT32 value 3.25 has the bit pattern \<open>40500000\<close>:
  \<open>packet_add_float\<close> writes it as \<open>00 00 50 40\<close> and \<open>packet_serialize\<close> emits these
  bytes after the header.  The FLOAT64 value 1.0 has the bit pattern
  \<open>3FF0000000000000\<close>: \<open>packet_add_double\<close> writes it as \<open>00 00 00 00 00 00 F0 3F\<close>
  and \<open>packet_serialize\<close> emits these bytes after the header.
\<close>

theorem append_little_endian:
  assumes arr: "payload_array p" and room: "11 \<le> length b"
  shows "(\<forall>x. unat (data_type p) = unat (op_type x)
              \<and> filled_elements p < unat (variable_count p)
              \<and> unat (payload_length p) + width p \<le> 255 * width p
            \<longrightarrow> (\<exists>p'. append (Some p) x = (0, Some p')))
    \<and> (\<forall>x p'. append (Some p) x = (0, Some p')
            \<longrightarrow> payload_bytes p' = payload_bytes p @ op_bytes x
              \<and> length (op_bytes x) = width p
              \<and> (\<forall>i < width p. unat (op_bytes x ! i) = (op_value x div 256 ^ i) mod 256))
    \<and> float32_value 0x40500000 = Some 3.25
    \<and> (\<exists>p1 p2. packet_init (Some p) slave_addr DATA_TYPE_FLOAT 1 = (0, Some p1)
          \<and> packet_add_float (Some p1) 0x40500000 = (0, Some p2)
          \<and> payload_bytes p2 = [0x00, 0x00, 0x50, 0x40]
          \<and> packet_serialize (Some p2) (Some b)
              = (7, Some ([slave_addr, 0x02, 0x01, 0x00, 0x00, 0x50, 0x40] @ drop 7 b)))
    \<and> float64_value 0x3FF0000000000000 = Some 1.0
    \<and> (\<exists>p1 p2. packet_init (Some p) slave_addr DATA_TYPE_DOUBLE 1 = (0, Some p1)
          \<and> packet_add_double (Some p1) 0x3FF0000000000000 = (0, Some p2)
          \<and> payload_bytes p2 = [0x00, 0x00, 0x00, 0x00, 0x00, 0x00, 0xF0, 0x3F]
          \<and> packet_serialize (Some p2) (Some b)
              = (11, Some ([slave_addr, 0x03, 0x01,
                            0x00, 0x00, 0x00, 0x00, 0x00, 0x00, 0xF0, 0x3F] @ drop 11 b)))"
proof -
  have succ: "\<forall>x. unat (data_type p) = unat (op_type x)
              \<and> filled_elements p < unat (variable_count p)
              \<and> unat (payload_length p) + width p \<le> 255 * width p
            \<longrightarrow> (\<exists>p'. append (Some p) x = (0, Some p'))"
    using append_succeeds [of p] by blast
  have enc: "\<forall>x p'. append (Some p) x = (0, Some p')
            \<longrightarrow> payload_bytes p' = payload_bytes p @ op_bytes x
              \<and> length (op_bytes x) = width p
              \<and> (\<forall>i < width p. unat (op_bytes x ! i) = (op_value x div 256 ^ i) mod 256)"
  proof (intro allI impI)
    fix x p'
    assume ok: "append (Some p) x = (0, Some p')"
    note r = append_ok [OF arr ok]
    from r have a: "payload_bytes p' = payload_bytes p @ op_bytes x" by blast
    from r have l: "length (op_bytes x) = width p" by simp
    have e: "\<forall>i < width p. unat (op_bytes x ! i) = (op_value x div 256 ^ i) mod 256"
      using op_bytes_little_endian [of _ x] by (simp add: l)
    from a l e show "payload_bytes p' = payload_bytes p @ op_bytes x
              \<and> length (op_bytes x) = width p
              \<and> (\<forall>i < width p. unat (op_bytes x ! i) = (op_value x div 256 ^ i) mod 256)"
      by blast
  qed
  have f: "float32_value 0x40500000 = Some 3.25"
    by (simp add: float32_value_def ieee_value_def Let_def)
  have g: "float64_value 0x3FF0000000000000 = Some 1.0"
    by (simp add: float64_value_def ieee_value_def Let_def)
  have h: "DataValue_f32 0x40500000 = [0x00, 0x00, 0x50, 0x40]"
    by (simp add: DataValue_f32_def upt_numerals)
  have k: "DataValue_f64 0x3FF0000000000000
      = [0x00, 0x00, 0x00, 0x00, 0x00, 0x00, 0xF0, 0x3F]"
    by (simp add: DataValue_f64_def upt_numerals)
  have "3 + length (op_bytes (AddFloat 0x40500000)) \<le> length b" using room by simp
  from single_element_packet [OF arr this, of slave_addr]
  have s32: "\<exists>p1 p2. packet_init (Some p) slave_addr DATA_TYPE_FLOAT 1 = (0, Some p1)
          \<and> packet_add_float (Some p1) 0x40500000 = (0, Some p2)
          \<and> payload_bytes p2 = [0x00, 0x00, 0x50, 0x40]
          \<and> packet_serialize (Some p2) (Some b)
              = (7, Some ([slave_addr, 0x02, 0x01, 0x00, 0x00, 0x50, 0x40] @ drop 7 b))"
    by (simp add: h DATA_TYPE_FLOAT_def)
  have "3 + length (op_bytes (AddDouble 0x3FF0000000000000)) \<le> length b" using room by simp
  from single_element_packet [OF arr this, of slave_addr]
  have s64: "\<exists>p1 p2. packet_init (Some p) slave_addr DATA_TYPE_DOUBLE 1 = (0, Some p1)
          \<and> packet_add_double (Some p1) 0x3FF0000000000000 = (0, Some p2)
          \<and> payload_bytes p2 = [0x00, 0x00, 0x00, 0x00, 0x00, 0x00, 0xF0, 0x3F]
          \<and> packet_serialize (Some p2) (Some b)
              = (11, Some ([slave_addr, 0x03, 0x01,
                            0x00, 0x00, 0x00, 0x00, 0x00, 0x00, 0xF0, 0x3F] @ drop 11 b))"
    by (simp add: k DATA_TYPE_DOUBLE_def)
  show ?thesis
    by (intro conjI) (fact succ enc f s32 g s64)+
qed

theorem append_little_endian_witness:
  "payload_array (zero_packet\<lparr>data_type := 3, variable_count := 2\<rparr>)
   \<and> 11 \<le> length zero_buffer
   \<and> (\<exists>p'. packet_add_double (Some (zero_packet\<lparr>data_type := 3, variable_count := 2\<rparr>))
               0x3FF0000000000000 = (0, Some p')
         \<and> payload_bytes p' = [0x00, 0x00, 0x00, 0x00, 0x00, 0x00, 0xF0, 0x3F])
   \<and> (\<exists>p1 p2. packet_init (Some (zero_packet\<lparr>data_type := 3, variable_count := 2\<rparr>))
                   1 DATA_TYPE_FLOAT 1 = (0, Some p1)
         \<and> packet_add_float (Some p1) 0x40500000 = (0, Some p2)
         \<and> packet_serialize (Some p2) (Some zero_buffer)
             = (7, Some ([0x01, 0x02, 0x01, 0x00, 0x00, 0x50, 0x40] @ drop 7 zero_buffer)))
   \<and> (\<exists>p1 p2. packet_init (Some (zero_packet\<lparr>data_type := 3, variable_count := 2\<rparr>))
                   1 DATA_TYPE_DOUBLE 1 = (0, Some p1)
         \<and> packet_add_double (Some p1) 0x3FF0000000000000 = (0, Some p2)
         \<and> packet_serialize (Some p2) (Some zero_buffer)
             = (11, Some ([0x01, 0x03, 0x01,
                           0x00, 0x00, 0x00, 0x00, 0x00, 0x00, 0xF0, 0x3F] @ drop 11 zero_buffer)))"
proof -
  let ?p = "zero_packet\<lparr>data_type := 3, variable_count := 2\<rparr>"
  let ?x = "AddDouble 0x3FF0000000000000"
  have arr: "payload_array ?p" by (simp add: payload_array_def zero_packet_def)
  have room: "11 \<le> length zero_buffer" by (simp add: zero_buffer_def)
  note t = append_little_endian [OF arr room, of 1]
  have w: "width ?p = 8" by (simp add: width_of_code)
  have z: "payload_bytes ?p = []" by (simp add: payload_bytes_def zero_packet_def)
  have pre: "unat (data_type ?p) = unat (op_type ?x)
              \<and> filled_elements ?p < unat (variable_count ?p)
              \<and> unat (payload_length ?p) + width ?p \<le> 255 * width ?p"
    by (simp add: filled_elements_def w zero_packet_def)
  from t pre obtain p' where ok: "append (Some ?p) ?x = (0, Some p')" by blast
  from t ok have "payload_bytes p' = payload_bytes ?p @ op_bytes ?x" by blast
  then have bytes: "payload_bytes p' = [0x00, 0x00, 0x00, 0x00, 0x00, 0x00, 0xF0, 0x3F]"
    by (simp add: z DataValue_f64_def upt_numerals)
  from ok bytes have d: "\<exists>p'. packet_add_double (Some ?p) 0x3FF0000000000000 = (0, Some p')
         \<and> payload_bytes p' = [0x00, 0x00, 0x00, 0x00, 0x00, 0x00, 0xF0, 0x3F]"
    by auto
  from t have s32: "\<exists>p1 p2. packet_init (Some ?p) 1 DATA_TYPE_FLOAT 1 = (0, Some p1)
         \<and> packet_add_float (Some p1) 0x40500000 = (0, Some p2)
         \<and> packet_serialize (Some p2) (Some zero_buffer)
             = (7, Some ([0x01, 0x02, 0x01, 0x00, 0x00, 0x50, 0x40] @ drop 7 zero_buffer))"
    by blast
  from t have s64: "\<exists>p1 p2. packet_init (Some ?p) 1 DATA_TYPE_DOUBLE 1 = (0, Some p1)
         \<and> packet_add_double (Some p1) 0x3FF0000000000000 = (0, Some p2)
         \<and> packet_serialize (Some p2) (Some zero_buffer)
             = (11, Some ([0x01, 0x03, 0x01,
                           0x00, 0x00, 0x00, 0x00, 0x00, 0x00, 0xF0, 0x3F] @ drop 11 zero_buffer))"
    by blast
  show ?thesis
    by (intro conjI) (fact arr room d s32 s64)+
qed

end
